theory Spec2Isabelle
  imports Main "HOL-Library.AList"
begin

section \<open>Strings\<close>

text \<open>
  A Python \<open>str\<close> is modelled as a \<open>string\<close> whose characters are the code points
  below 256. \<open>isspace\<close> is the whitespace class shared by \<open>str.strip\<close>, the regular
  expression class \<open>\s\<close> and \<open>int\<close>: the ASCII controls 9 to 13 and 28 to 31, the
  space, and the two Latin-1 characters NEL (0x85) and NBSP (0xA0).
\<close>

definition isspace :: "char \<Rightarrow> bool" where
  "isspace c = (c \<in> set [CHR 0x09, CHR 0x0A, CHR 0x0B, CHR 0x0C, CHR 0x0D,
                          CHR 0x1C, CHR 0x1D, CHR 0x1E, CHR 0x1F, CHR 0x20,
                          CHR 0x85, CHR 0xA0])"

definition isdigit :: "char \<Rightarrow> bool" where
  "isdigit c = (c \<in> set ''0123456789'')"

definition lower_char :: "char \<Rightarrow> char" where
  "lower_char c =
     (case map_of (zip ''ABCDEFGHIJKLMNOPQRSTUVWXYZ'' ''abcdefghijklmnopqrstuvwxyz'') c of
        Some d \<Rightarrow> d
      | None \<Rightarrow> c)"

definition upper_char :: "char \<Rightarrow> char" where
  "upper_char c =
     (case map_of (zip ''abcdefghijklmnopqrstuvwxyz'' ''ABCDEFGHIJKLMNOPQRSTUVWXYZ'') c of
        Some d \<Rightarrow> d
      | None \<Rightarrow> c)"

text \<open>\<open>str.lower\<close> and \<open>str.upper\<close>, on the ASCII letters.\<close>

definition lower :: "string \<Rightarrow> string" where
  "lower s = map lower_char s"

definition upper :: "string \<Rightarrow> string" where
  "upper s = map upper_char s"

text \<open>\<open>s.startswith(p)\<close> and \<open>sub in s\<close>.\<close>

fun startswith :: "string \<Rightarrow> string \<Rightarrow> bool" where
  "startswith s [] = True"
| "startswith [] (p # ps) = False"
| "startswith (c # cs) (p # ps) = (c = p \<and> startswith cs ps)"

fun py_in :: "string \<Rightarrow> string \<Rightarrow> bool" where
  "py_in sub [] = (sub = [])"
| "py_in sub (c # cs) = (startswith (c # cs) sub \<or> py_in sub cs)"

text \<open>\<open>s.strip()\<close>: whitespace is dropped at both ends.\<close>

definition lstrip :: "string \<Rightarrow> string" where
  "lstrip s = dropWhile isspace s"

definition rstrip :: "string \<Rightarrow> string" where
  "rstrip s = rev (dropWhile isspace (rev s))"

definition strip :: "string \<Rightarrow> string" where
  "strip s = rstrip (lstrip s)"

text \<open>
  \<open>re.sub(r'\s+', ' ', s)\<close>: scanning from the left, every maximal run of whitespace is
  replaced by one space.
\<close>

function sub_spaces :: "string \<Rightarrow> string" where
  "sub_spaces [] = []"
| "sub_spaces (c # cs) =
     (if isspace c then CHR '' '' # sub_spaces (dropWhile isspace cs)
      else c # sub_spaces cs)"
  by pat_completeness auto
termination
  by (relation "measure length") (auto simp: less_Suc_eq_le length_dropWhile_le)

text \<open>\<open>s.split(sep)\<close> for a one-character separator: never the empty list.\<close>

fun split_on :: "char \<Rightarrow> string \<Rightarrow> string list" where
  "split_on d [] = [[]]"
| "split_on d (c # cs) =
     (let ps = split_on d cs in
      if c = d then [] # ps else (c # hd ps) # tl ps)"

text \<open>
  The words of a string: its maximal runs of characters that are not whitespace. This
  is what the claims call the text between runs of whitespace, and what bs4 makes of a
  \<open>class\<close> attribute (the matches of \<open>\S+\<close>).
\<close>

function ws_words :: "string \<Rightarrow> string list" where
  "ws_words s =
     (let r = dropWhile isspace s in
      if r = [] then []
      else takeWhile (\<lambda>c. \<not> isspace c) r # ws_words (dropWhile (\<lambda>c. \<not> isspace c) r))"
  by pat_completeness auto
termination
proof (relation "measure length", goal_cases)
  case 1
  show ?case by simp
next
  case (2 s r)
  then obtain c cs where r: "dropWhile isspace s = c # cs"
    by (cases "dropWhile isspace s") auto
  then have "\<not> isspace c"
    by (metis hd_dropWhile list.sel(1) list.discI)
  then have "length (dropWhile (\<lambda>c. \<not> isspace c) (c # cs)) \<le> length cs"
    by (simp add: length_dropWhile_le)
  moreover have "length (c # cs) \<le> length s"
    using r by (metis length_dropWhile_le)
  ultimately show ?case using r 2 by simp
qed

declare ws_words.simps [simp del]

text \<open>\<open>' '.join(ws)\<close>.\<close>

fun join_space :: "string list \<Rightarrow> string" where
  "join_space [] = []"
| "join_space [w] = w"
| "join_space (w # v # ws) = w @ CHR '' '' # join_space (v # ws)"

section \<open>clean_text\<close>

text \<open>
  \<^verbatim>\<open>
  def clean_text(text):
      if not text:
          return "N/A"
      text = re.sub(r'\s+', ' ', text.strip())
      return text if text else "N/A"
  \<close>
  The argument is a string or Python's \<open>None\<close>.
\<close>

definition clean_text :: "string option \<Rightarrow> string" where
  "clean_text text =
     (case text of
        None \<Rightarrow> ''N/A''
      | Some t \<Rightarrow>
          if t = [] then ''N/A''
          else (let t' = sub_spaces (strip t) in if t' \<noteq> [] then t' else ''N/A''))"

section \<open>Parsed documents\<close>

text \<open>
  What \<open>BeautifulSoup(html, 'html.parser')\<close> returns: a tree of tags and strings. A
  tag has a name, a dictionary of attributes (an association list read with \<open>map_of\<close>,
  each value the attribute's text) and its children in document order. The document
  itself is the tag named \<open>[document]\<close>. Comments and other special strings are
  not modelled.
\<close>

datatype node = NavigableString string | Tag string "(string \<times> string) list" "node list"

fun attrs :: "node \<Rightarrow> (string \<times> string) list" where
  "attrs (NavigableString s) = []"
| "attrs (Tag n a cs) = a"

text \<open>All nodes below a node, in document order (the node itself is not among them).\<close>

fun descendants :: "node \<Rightarrow> node list" where
  "descendants (NavigableString s) = []"
| "descendants (Tag n a cs) = concat (map (\<lambda>c. c # descendants c) cs)"

definition has_name :: "string list \<Rightarrow> node \<Rightarrow> bool" where
  "has_name names e = (case e of NavigableString s \<Rightarrow> False | Tag n a cs \<Rightarrow> n \<in> set names)"

text \<open>
  \<open>e.find_all(names)\<close> and \<open>e.find(names)\<close>: the descendant tags whose name is one of
  \<open>names\<close>, in document order, and the first of them. A call with one name, such as
  \<open>soup.find_all(tag)\<close>, is \<open>find_all [tag] soup\<close>.
\<close>

definition find_all :: "string list \<Rightarrow> node \<Rightarrow> node list" where
  "find_all names e = filter (has_name names) (descendants e)"

definition find_first :: "string list \<Rightarrow> node \<Rightarrow> node option" where
  "find_first names e = List.find (has_name names) (descendants e)"

text \<open>\<open>e.text\<close>: the strings below the node, concatenated.\<close>

fun get_text :: "node \<Rightarrow> string" where
  "get_text (NavigableString s) = s"
| "get_text (Tag n a cs) = concat (map get_text cs)"

text \<open>
  \<open>e.string\<close>: the string of a tag with exactly one child, that child being a string or
  a tag that has a \<open>string\<close> itself; \<open>None\<close> otherwise.
\<close>

fun dot_string :: "node \<Rightarrow> string option" where
  "dot_string (NavigableString s) = Some s"
| "dot_string (Tag n a []) = None"
| "dot_string (Tag n a [c]) = dot_string c"
| "dot_string (Tag n a (c # d # cs)) = None"

text \<open>Python's exceptions, as far as this program meets them.\<close>

datatype py_error = AttributeError | IndexError | ValueError | EOFError

text \<open>\<open>xs[i]\<close>: a negative index counts from the end, an index out of range raises.\<close>

definition py_index :: "'a list \<Rightarrow> int \<Rightarrow> py_error + 'a" where
  "py_index xs i =
     (if 0 \<le> i \<and> i < int (length xs) then Inr (xs ! nat i)
      else if i < 0 \<and> - int (length xs) \<le> i then Inr (xs ! nat (int (length xs) + i))
      else Inl IndexError)"

section \<open>analyze_structure\<close>

text \<open>
  \<^verbatim>\<open>
  container_tags = ['article', 'div', 'section', 'li']
  containers = []
  for tag in container_tags:
      elements = soup.find_all(tag)
      for element in elements:
          child_tags = element.find_all(['h1', 'h2', 'h3', 'p', 'time'])
          if len(child_tags) > 0:
              containers.append((tag, element))
  content_tags = ['h1', 'h2', 'h3', 'p', 'time']
  tag_info = []
  for tag in content_tags:
      elements = soup.find_all(tag)
      if elements:
          sample = clean_text(elements[0].text)[:50] if elements else "N/A"
          tag_info.append({'type': tag.upper(), 'tag': tag,
                           'count': len(elements), 'sample': sample})
  tag_info = [info for info in tag_info if info['count'] > 0]
  return containers, tag_info
  \<close>
\<close>

record tag_info =
  info_type :: string
  info_tag :: string
  info_count :: nat
  info_sample :: string

definition container_tags :: "string list" where
  "container_tags = [''article'', ''div'', ''section'', ''li'']"

definition content_tags :: "string list" where
  "content_tags = [''h1'', ''h2'', ''h3'', ''p'', ''time'']"

text \<open>The inner loop for one container tag: the elements that are kept.\<close>

definition qualifying :: "node \<Rightarrow> string \<Rightarrow> node list" where
  "qualifying soup tag =
     filter (\<lambda>element. length (find_all content_tags element) > 0) (find_all [tag] soup)"

definition detect_containers :: "node \<Rightarrow> (string \<times> node) list" where
  "detect_containers soup =
     concat (map (\<lambda>tag. map (\<lambda>element. (tag, element)) (qualifying soup tag)) container_tags)"

definition detect_content :: "node \<Rightarrow> tag_info list" where
  "detect_content soup =
     concat (map (\<lambda>tag.
       case find_all [tag] soup of
         [] \<Rightarrow> []
       | first # others \<Rightarrow>
           [\<lparr>info_type = upper tag, info_tag = tag,
             info_count = length (first # others),
             info_sample = take 50 (clean_text (Some (get_text first)))\<rparr>]) content_tags)"

definition analyze_structure :: "node \<Rightarrow> (string \<times> node) list \<times> tag_info list" where
  "analyze_structure soup =
     (let containers = detect_containers soup;
          tag_info = detect_content soup;
          tag_info = filter (\<lambda>info. info_count info > 0) tag_info
      in (containers, tag_info))"

section \<open>present_options\<close>

text \<open>
  \<open>int(x)\<close> on a string, base ten: whitespace around the number is ignored, one sign
  may lead, and single underscores may stand between digits. \<open>None\<close> is the
  \<open>ValueError\<close>.
\<close>

fun digits_ok :: "string \<Rightarrow> bool" where
  "digits_ok [] = False"
| "digits_ok [c] = isdigit c"
| "digits_ok (c # d # cs) =
     (isdigit c \<and> (if d = CHR ''_'' then digits_ok cs else digits_ok (d # cs)))"

definition digit_value :: "char \<Rightarrow> int" where
  "digit_value c = int (length (takeWhile (\<lambda>d. d \<noteq> c) ''0123456789''))"

definition digits_value :: "string \<Rightarrow> int" where
  "digits_value s = foldl (\<lambda>acc c. 10 * acc + digit_value c) 0 (filter (\<lambda>c. c \<noteq> CHR ''_'') s)"

definition py_int :: "string \<Rightarrow> int option" where
  "py_int x =
     (let t = strip x in
      case t of
        [] \<Rightarrow> None
      | c # r \<Rightarrow>
          if c = CHR ''-'' then (if digits_ok r then Some (- digits_value r) else None)
          else if c = CHR ''+'' then (if digits_ok r then Some (digits_value r) else None)
          else (if digits_ok t then Some (digits_value t) else None))"

text \<open>
  \<^verbatim>\<open>
  if not tag_info:
      return []
  ...
  while True:
      try:
          choices = input(...)
          if choices.lower() == 'all':
              return list(range(1, len(tag_info) + 1))
          selected = [int(x) for x in choices.split(',') if x.strip()]
          if all(1 <= x <= len(tag_info) for x in selected):
              return selected
          print("Invalid selection. ...")
      except ValueError:
          print("Please enter valid numbers ...")
  \<close>
  The operator's lines are a list; each \<open>input\<close> takes the next one, and raises
  \<open>EOFError\<close> (which the function does not catch) when none is left. The function
  returns its result and the lines not yet read.
\<close>

definition parse_choices :: "string \<Rightarrow> int list option" where
  "parse_choices choices =
     those (map py_int (filter (\<lambda>x. strip x \<noteq> []) (split_on CHR '','' choices)))"

fun prompt_loop :: "nat \<Rightarrow> string list \<Rightarrow> (py_error + int list) \<times> string list" where
  "prompt_loop n [] = (Inl EOFError, [])"
| "prompt_loop n (choices # rest) =
     (if lower choices = ''all'' then (Inr (map int [1..<n + 1]), rest)
      else
        case parse_choices choices of
          None \<Rightarrow> prompt_loop n rest
        | Some selected \<Rightarrow>
            if list_all (\<lambda>x. 1 \<le> x \<and> x \<le> int n) selected then (Inr selected, rest)
            else prompt_loop n rest)"

definition present_options :: "tag_info list \<Rightarrow> string list \<Rightarrow> (py_error + int list) \<times> string list" where
  "present_options tag_info stdin =
     (if tag_info = [] then (Inr [], stdin) else prompt_loop (length tag_info) stdin)"

section \<open>scrape_page\<close>

text \<open>
  \<^verbatim>\<open>
  data = []
  container_tag = containers[0][0] if containers else 'article'
  articles = soup.find_all(container_tag)
  selected_tags = [(tag_info[i-1]['tag'], tag_info[i-1]['type']) for i in selected_indices]
  for article in articles:
      row = {}
      try:
          for tag, col_name in selected_tags:
              element = article.find(tag)
              row[col_name] = clean_text(element.text if element else None)
          data.append(row)
      except AttributeError:
          logger.warning("Skipping article due to missing elements")
          continue
  return data
  \<close>
  A row is a dictionary from column name to text, kept as an association list in
  insertion order (\<open>AList.update\<close> overwrites a key in place and appends a new one).
\<close>

type_synonym row = "(string \<times> string) list"

definition container_tag_of :: "(string \<times> node) list \<Rightarrow> string" where
  "container_tag_of containers =
     (case containers of [] \<Rightarrow> ''article'' | (tag, element) # others \<Rightarrow> tag)"

fun selected_tags :: "tag_info list \<Rightarrow> int list \<Rightarrow> py_error + (string \<times> string) list" where
  "selected_tags tag_info [] = Inr []"
| "selected_tags tag_info (i # more_indices) =
     (case py_index tag_info (i - 1) of
        Inl e \<Rightarrow> Inl e
      | Inr info \<Rightarrow>
          (case selected_tags tag_info more_indices of
             Inl e \<Rightarrow> Inl e
           | Inr st \<Rightarrow> Inr ((info_tag info, info_type info) # st)))"

text \<open>
  Reading \<open>.text\<close>: on \<open>None\<close> it raises \<open>AttributeError\<close>, the error the source's
  \<open>except\<close> clause is written for.
\<close>

fun dot_text :: "node option \<Rightarrow> py_error + string" where
  "dot_text None = Inl AttributeError"
| "dot_text (Some e) = Inr (get_text e)"

text \<open>
  The inner loop over the selected tags. A tag is always true in a condition, so
  \<open>element.text if element else None\<close> reads the text exactly when \<open>find\<close> found one.
\<close>

fun build_row :: "node \<Rightarrow> (string \<times> string) list \<Rightarrow> row \<Rightarrow> py_error + row" where
  "build_row article [] row = Inr row"
| "build_row article ((tag, col_name) # more_tags) row =
     (let element = find_first [tag] article in
      case (if element \<noteq> None then map_sum id Some (dot_text element) else Inr None) of
        Inl e \<Rightarrow> Inl e
      | Inr t \<Rightarrow> build_row article more_tags (AList.update col_name (clean_text t) row))"

text \<open>The outer loop: \<open>AttributeError\<close> skips the article, any other error leaves the loop.\<close>

fun scrape_articles :: "node list \<Rightarrow> (string \<times> string) list \<Rightarrow> row list \<Rightarrow> py_error + row list" where
  "scrape_articles [] st data = Inr data"
| "scrape_articles (article # more_articles) st data =
     (case build_row article st [] of
        Inl e \<Rightarrow> if e = AttributeError then scrape_articles more_articles st data else Inl e
      | Inr row \<Rightarrow> scrape_articles more_articles st (data @ [row]))"

definition scrape_page ::
  "node \<Rightarrow> (string \<times> node) list \<Rightarrow> tag_info list \<Rightarrow> int list \<Rightarrow> py_error + row list" where
  "scrape_page soup containers tag_info selected_indices =
     (let container_tag = container_tag_of containers;
          articles = find_all [container_tag] soup in
      case selected_tags tag_info selected_indices of
        Inl e \<Rightarrow> Inl e
      | Inr st \<Rightarrow> scrape_articles articles st [])"

section \<open>get_next_page\<close>

text \<open>
  \<^verbatim>\<open>
  next_button = soup.find('a', class_=lambda x: x and 'next' in x.lower()) or \
                soup.find('a', text=re.compile(r'next|page \d+', re.I))
  if next_button and 'href' in next_button.attrs:
      return urljoin(base_url, next_button['href'])
  return None
  \<close>
  \<open>class_next\<close> is the lambda. bs4 holds a \<open>class\<close> attribute as the list of its
  words and asks the lambda about every word, then about the words joined by spaces;
  a tag without the attribute is asked about with \<open>None\<close>.
\<close>

definition class_next :: "string option \<Rightarrow> bool" where
  "class_next x = (case x of None \<Rightarrow> False | Some v \<Rightarrow> v \<noteq> [] \<and> py_in ''next'' (lower v))"

definition match_class :: "node \<Rightarrow> bool" where
  "match_class e =
     (case map_of (attrs e) ''class'' of
        None \<Rightarrow> class_next None
      | Some v \<Rightarrow>
          (let classes = ws_words v in
           list_ex (\<lambda>c. class_next (Some c)) classes \<or> class_next (Some (join_space classes))))"

text \<open>
  \<open>re.compile(r'next|page \d+', re.I).search(s)\<close>: at some position of \<open>s\<close> stands
  \<open>next\<close>, or \<open>page\<close>, a space and a digit, in any letter case (one digit is enough
  for \<open>\d+\<close> to match).
\<close>

definition re_match_here :: "string \<Rightarrow> bool" where
  "re_match_here t =
     (startswith (lower t) ''next'' \<or>
      (startswith (lower t) ''page '' \<and> (case drop 5 t of [] \<Rightarrow> False | d # ds \<Rightarrow> isdigit d)))"

fun re_search :: "string \<Rightarrow> bool" where
  "re_search [] = False"
| "re_search (c # cs) = (re_match_here (c # cs) \<or> re_search cs)"

text \<open>With a tag name and \<open>text=\<close>, bs4 matches the pattern against the tag's \<open>string\<close>.\<close>

definition match_text :: "node \<Rightarrow> bool" where
  "match_text e = (case dot_string e of None \<Rightarrow> False | Some s \<Rightarrow> re_search s)"

definition find_a_by_class :: "node \<Rightarrow> node option" where
  "find_a_by_class soup = List.find (\<lambda>e. has_name [''a''] e \<and> match_class e) (descendants soup)"

definition find_a_by_text :: "node \<Rightarrow> node option" where
  "find_a_by_text soup = List.find (\<lambda>e. has_name [''a''] e \<and> match_text e) (descendants soup)"

text \<open>\<open>urljoin\<close> is the standard library's; it is a parameter here.\<close>

definition get_next_page :: "(string \<Rightarrow> string \<Rightarrow> string) \<Rightarrow> node \<Rightarrow> string \<Rightarrow> string option" where
  "get_next_page urljoin soup base_url =
     (let next_button =
            (case find_a_by_class soup of Some e \<Rightarrow> Some e | None \<Rightarrow> find_a_by_text soup) in
      case next_button of
        None \<Rightarrow> None
      | Some e \<Rightarrow>
          (case map_of (attrs e) ''href'' of
             None \<Rightarrow> None
           | Some href \<Rightarrow> Some (urljoin base_url href)))"

section \<open>fetch_page\<close>

text \<open>
  \<^verbatim>\<open>
  for attempt in range(retries):
      try:
          response = requests.get(url, headers=headers, timeout=10)
          response.raise_for_status()
          return response.text
      except requests.RequestException as e:
          if attempt + 1 == retries:
              return None
          sleep(delay)
  return None
  \<close>
  The network is a function \<open>http_get\<close>: the outcome of the \<open>k\<close>-th GET of the run
  (counting from 0) when it asks for \<open>url\<close>, either the body of a good response or the
  \<open>RequestException\<close> that \<open>get\<close> or \<open>raise_for_status\<close> raises. The state is the list of
  the URLs asked for so far; every attempt appends one.
\<close>

datatype response = Response string | RequestException

fun fetch_attempts ::
  "(nat \<Rightarrow> string \<Rightarrow> response) \<Rightarrow> string \<Rightarrow> int \<Rightarrow> nat list \<Rightarrow> string list \<Rightarrow> string option \<times> string list" where
  "fetch_attempts http_get url retries [] requests = (None, requests)"
| "fetch_attempts http_get url retries (attempt # more_attempts) requests =
     (case http_get (length requests) url of
        Response text \<Rightarrow> (Some text, requests @ [url])
      | RequestException \<Rightarrow>
          if int attempt + 1 = retries then (None, requests @ [url])
          else fetch_attempts http_get url retries more_attempts (requests @ [url]))"

definition fetch_page ::
  "(nat \<Rightarrow> string \<Rightarrow> response) \<Rightarrow> string \<Rightarrow> int \<Rightarrow> string list \<Rightarrow> string option \<times> string list" where
  "fetch_page http_get url retries requests =
     fetch_attempts http_get url retries [0..<nat retries] requests"

section \<open>The table that is saved\<close>

text \<open>
  \<^verbatim>\<open>
  df = pd.DataFrame(all_data)
  df = df.drop_duplicates().replace('', 'N/A').fillna('N/A')
  \<close>
  A data frame built from a list of dictionaries has the keys as its columns, in the
  order of their first appearance, and one row per dictionary; a key a dictionary lacks
  gives a missing cell (\<open>None\<close> here, NaN there). \<open>drop_duplicates\<close> keeps the first
  of equal rows (two missing cells count as equal), \<open>replace\<close> rewrites the cells equal
  to its first argument, \<open>fillna\<close> fills the missing cells.
\<close>

record dataframe =
  columns :: "string list"
  cells :: "string option list list"

definition keep_first :: "'a list \<Rightarrow> 'a list" where
  "keep_first xs = rev (remdups (rev xs))"

definition DataFrame :: "row list \<Rightarrow> dataframe" where
  "DataFrame data =
     (let cols = keep_first (concat (map (map fst) data)) in
      \<lparr>columns = cols, cells = map (\<lambda>r. map (map_of r) cols) data\<rparr>)"

definition drop_duplicates :: "dataframe \<Rightarrow> dataframe" where
  "drop_duplicates df = df\<lparr>cells := keep_first (cells df)\<rparr>"

definition replace :: "string \<Rightarrow> string \<Rightarrow> dataframe \<Rightarrow> dataframe" where
  "replace old new df =
     df\<lparr>cells := map (map (\<lambda>c. if c = Some old then Some new else c)) (cells df)\<rparr>"

definition fillna :: "string \<Rightarrow> dataframe \<Rightarrow> dataframe" where
  "fillna v df =
     df\<lparr>cells := map (map (\<lambda>c. case c of None \<Rightarrow> Some v | Some s \<Rightarrow> Some s)) (cells df)\<rparr>"

definition to_save :: "row list \<Rightarrow> dataframe" where
  "to_save all_data = fillna ''N/A'' (replace [] ''N/A'' (drop_duplicates (DataFrame all_data)))"

section \<open>main\<close>

text \<open>
  What the run depends on outside the program: the network, the HTML parser and the
  two URL functions of the standard library (\<open>urlparse\<close> gives the scheme and the
  network location).
\<close>

record env =
  http_get :: "nat \<Rightarrow> string \<Rightarrow> response"
  html_parser :: "string \<Rightarrow> node"
  urljoin :: "string \<Rightarrow> string \<Rightarrow> string"
  urlparse :: "string \<Rightarrow> string \<times> string"

text \<open>
  The state of the page loop: the records so far, the GET requests of the whole run so
  far, the URLs the loop has handed to \<open>fetch_page\<close>, and for every page scraped its
  URL, its parsed document and its records.
\<close>

record loop_state =
  all_data :: "row list"
  requests :: "string list"
  visited :: "string list"
  pages :: "(string \<times> node \<times> row list) list"

text \<open>
  \<^verbatim>\<open>
  for page_num in range(max_pages):
      html = fetch_page(current_url)
      if not html:
          break
      soup = BeautifulSoup(html, 'html.parser')
      page_data = scrape_page(soup, containers, tag_info, selected_indices)
      all_data.extend(page_data)
      current_url = get_next_page(soup, base_url)
      if not current_url:
          break
      sleep(1)
  \<close>
  The list argument is what is left of \<open>range(max_pages)\<close>. An exception of
  \<open>scrape_page\<close> ends the loop and is returned with the state reached.
\<close>

fun page_loop ::
  "env \<Rightarrow> (string \<times> node) list \<Rightarrow> tag_info list \<Rightarrow> int list \<Rightarrow> string \<Rightarrow>
   nat list \<Rightarrow> string \<Rightarrow> loop_state \<Rightarrow> py_error option \<times> loop_state" where
  "page_loop env containers tag_info selected_indices base_url [] current_url st = (None, st)"
| "page_loop env containers tag_info selected_indices base_url (page_num # more_pages) current_url st =
     (case fetch_page (http_get env) current_url 3 (requests st) of
        (html, reqs) \<Rightarrow>
          (let st1 = st\<lparr>requests := reqs, visited := visited st @ [current_url]\<rparr> in
           case html of
             None \<Rightarrow> (None, st1)
           | Some h \<Rightarrow>
               if h = [] then (None, st1)
               else
                 (let soup = html_parser env h in
                  case scrape_page soup containers tag_info selected_indices of
                    Inl e \<Rightarrow> (Some e, st1)
                  | Inr page_data \<Rightarrow>
                      (let st2 = st1\<lparr>all_data := all_data st1 @ page_data,
                                      pages := pages st1 @ [(current_url, soup, page_data)]\<rparr> in
                       case get_next_page (urljoin env) soup base_url of
                         None \<Rightarrow> (None, st2)
                       | Some next_url \<Rightarrow>
                           if next_url = [] then (None, st2)
                           else page_loop env containers tag_info selected_indices base_url
                                  more_pages next_url st2))))"

text \<open>
  \<^verbatim>\<open>
  if not url.startswith(('http://', 'https://')):
      url = 'https://' + url
  parsed_url = urlparse(url)
  base_url = f"{parsed_url.scheme}://{parsed_url.netloc}"
  html = fetch_page(url)
  if not html:
      return
  soup = BeautifulSoup(html, 'html.parser')
  containers, tag_info = analyze_structure(soup)
  if not containers:
      return
  selected_indices = present_options(tag_info)
  if not selected_indices:
      return
  all_data = []
  current_url = url
  for page_num in range(max_pages): ...
  if all_data:
      df = pd.DataFrame(all_data)
      df = df.drop_duplicates().replace('', 'N/A').fillna('N/A')
      output_file = f"{parsed_url.netloc.replace('.', '_')}_data.csv"
      df.to_csv(output_file, index=False)
  else:
      print("No data scraped. Try different selections or URL.")
  \<close>
  The run ends in one of these ways; \<open>Saved\<close> carries the file name and the table
  handed to \<open>to_csv\<close>.
\<close>

datatype outcome =
    FetchFailed
  | NoContainers
  | NoDataSelected
  | NoDataScraped
  | Saved string dataframe
  | Raised py_error

record run =
  outcome :: outcome
  final :: loop_state

definition normalize_url :: "string \<Rightarrow> string" where
  "normalize_url url =
     (if \<not> (startswith url ''http://'' \<or> startswith url ''https://'') then ''https://'' @ url
      else url)"

definition output_file :: "string \<Rightarrow> string" where
  "output_file netloc = map (\<lambda>c. if c = CHR ''.'' then CHR ''_'' else c) netloc @ ''_data.csv''"

definition main :: "env \<Rightarrow> string list \<Rightarrow> string \<Rightarrow> int \<Rightarrow> run" where
  "main env stdin url0 max_pages =
     (let url = normalize_url url0;
          (scheme, netloc) = urlparse env url;
          base_url = scheme @ ''://'' @ netloc in
      case fetch_page (http_get env) url 3 [] of
        (html, reqs) \<Rightarrow>
          (let st0 = \<lparr>all_data = [], requests = reqs, visited = [], pages = []\<rparr> in
           case html of
             None \<Rightarrow> \<lparr>outcome = FetchFailed, final = st0\<rparr>
           | Some h \<Rightarrow>
               if h = [] then \<lparr>outcome = FetchFailed, final = st0\<rparr>
               else
                 (case analyze_structure (html_parser env h) of
                    (containers, tag_info) \<Rightarrow>
                      if containers = [] then \<lparr>outcome = NoContainers, final = st0\<rparr>
                      else
                        (case present_options tag_info stdin of
                           (Inl e, unread) \<Rightarrow> \<lparr>outcome = Raised e, final = st0\<rparr>
                         | (Inr selected_indices, unread) \<Rightarrow>
                             if selected_indices = [] then \<lparr>outcome = NoDataSelected, final = st0\<rparr>
                             else
                               (case page_loop env containers tag_info selected_indices base_url
                                       [0..<nat max_pages] url st0 of
                                  (Some e, st) \<Rightarrow> \<lparr>outcome = Raised e, final = st\<rparr>
                                | (None, st) \<Rightarrow>
                                    if all_data st \<noteq> [] then
                                      \<lparr>outcome = Saved (output_file netloc) (to_save (all_data st)),
                                       final = st\<rparr>
                                    else \<lparr>outcome = NoDataScraped, final = st\<rparr>)))))"

section \<open>The row of a container\<close>

text \<open>
  The text a row holds for a content tag, and the row the inner loop of \<open>scrape_page\<close>
  builds for one container when nothing is raised. They are used to state what
  \<open>build_row\<close> returns.
\<close>

definition field_text :: "node \<Rightarrow> string \<Rightarrow> string" where
  "field_text article tag =
     clean_text (case find_first [tag] article of
                   None \<Rightarrow> None
                 | Some element \<Rightarrow> Some (get_text element))"

definition row_of :: "node \<Rightarrow> (string \<times> string) list \<Rightarrow> row \<Rightarrow> row" where
  "row_of article st row =
     fold (\<lambda>(tag, col_name). AList.update col_name (field_text article tag)) st row"

section \<open>A small site, for the examples\<close>

text \<open>
  Two pages. The first has two articles, the second without a paragraph, and an anchor
  of class \<open>next-link\<close>; the second repeats the first article, adds another and has
  an anchor whose text is \<open>Next\<close>. The network answers every request, the parser
  maps the two bodies to the two documents.
\<close>

definition example_page1 :: node where
  "example_page1 =
     Tag ''[document]'' []
       [Tag ''article'' []
          [Tag ''h2'' [] [NavigableString ''First  post''],
           Tag ''p'' [] [NavigableString ''Hello'']],
        Tag ''article'' []
          [Tag ''h2'' [] [NavigableString ''Second post'']],
        Tag ''a'' [(''class'', ''pager next-link''), (''href'', ''/page/2'')]
          [NavigableString ''More'']]"

definition example_page2 :: node where
  "example_page2 =
     Tag ''[document]'' []
       [Tag ''article'' []
          [Tag ''h2'' [] [NavigableString ''First  post''],
           Tag ''p'' [] [NavigableString ''Hello'']],
        Tag ''article'' []
          [Tag ''h2'' [] [NavigableString ''Third post''],
           Tag ''p'' [] [NavigableString ''Bye'']],
        Tag ''a'' [(''href'', ''/page/3'')] [NavigableString ''Next'']]"

definition example_env :: env where
  "example_env =
     \<lparr>http_get = (\<lambda>k u. if u = ''https://example.com'' then Response ''one'' else Response ''two''),
      html_parser = (\<lambda>h. if h = ''one'' then example_page1 else example_page2),
      urljoin = (\<lambda>base href. base @ href),
      urlparse = (\<lambda>u. (''https'', ''example.com''))\<rparr>"

text \<open>A network on which every request fails.\<close>

definition offline :: "nat \<Rightarrow> string \<Rightarrow> response" where
  "offline k u = RequestException"

section \<open>Properties of the string functions\<close>

lemma rstrip_Nil: "rstrip [] = []"
  by (simp add: rstrip_def)

lemma dropWhile_all_space: "(\<forall>c\<in>set x. isspace c) \<Longrightarrow> dropWhile isspace x = []"
  by (induction x) auto

lemma rstrip_append_space: "(\<forall>c\<in>set x. isspace c) \<Longrightarrow> rstrip (w @ x) = rstrip w"
  by (simp add: rstrip_def dropWhile_append)

lemma rstrip_append_word: "\<exists>c\<in>set x. \<not> isspace c \<Longrightarrow> rstrip (w @ x) = w @ rstrip x"
  by (auto simp add: rstrip_def dropWhile_append)

lemma rstrip_nospace: "\<forall>c\<in>set w. \<not> isspace c \<Longrightarrow> rstrip w = w"
proof (induction w rule: rev_induct)
  case Nil
  show ?case by (simp add: rstrip_Nil)
next
  case (snoc c w)
  then show ?case by (simp add: rstrip_def)
qed

lemma strip_all_space: "(\<forall>c\<in>set x. isspace c) \<Longrightarrow> strip x = []"
  by (simp add: strip_def lstrip_def rstrip_Nil dropWhile_all_space)

lemma dropWhile_rstrip: "dropWhile isspace (rstrip x) = rstrip (dropWhile isspace x)"
proof (induction x)
  case Nil
  show ?case by (simp add: rstrip_Nil)
next
  case (Cons c x)
  show ?case
  proof (cases "\<forall>d\<in>set x. isspace d")
    case True
    then have a: "rstrip (c # x) = rstrip [c]"
      using rstrip_append_space [of x "[c]"] by simp
    have b: "rstrip [c] = (if isspace c then [] else [c])"
      by (simp add: rstrip_def)
    show ?thesis
      using True a b by (auto simp: rstrip_Nil dropWhile_all_space)
  next
    case False
    then have "rstrip (c # x) = c # rstrip x"
      using rstrip_append_word [of x "[c]"] by simp
    then show ?thesis using Cons by simp
  qed
qed

lemma sub_spaces_nospace_append:
  "\<forall>c\<in>set w. \<not> isspace c \<Longrightarrow> sub_spaces (w @ x) = w @ sub_spaces x"
  by (induction w) auto

lemma ws_words_Nil_iff: "ws_words s = [] \<longleftrightarrow> (\<forall>c\<in>set s. isspace c)"
  by (subst ws_words.simps) (simp add: Let_def)

text \<open>Stripping and then collapsing gives the words joined by single spaces.\<close>

lemma sub_spaces_strip: "sub_spaces (strip s) = join_space (ws_words s)"
proof (induction s rule: ws_words.induct)
  case (1 s)
  define r where "r = dropWhile isspace s"
  show ?case
  proof (cases "r = []")
    case True
    then have "\<forall>c\<in>set s. isspace c" by (simp add: r_def)
    then show ?thesis
      using ws_words_Nil_iff [of s] by (simp add: strip_all_space)
  next
    case False
    define w where "w = takeWhile (\<lambda>c. \<not> isspace c) r"
    define rest where "rest = dropWhile (\<lambda>c. \<not> isspace c) r"
    have r: "r = w @ rest" by (simp add: w_def rest_def)
    have wns: "\<forall>c\<in>set w. \<not> isspace c"
      unfolding w_def by (auto dest: set_takeWhileD)
    have ww: "ws_words s = w # ws_words rest"
      using False by (subst ws_words.simps) (simp add: r_def w_def rest_def Let_def)
    have IH: "sub_spaces (strip rest) = join_space (ws_words rest)"
      using "1.IH" [OF r_def False] by (simp add: rest_def)
    have rw: "rstrip w = w"
      using wns by (rule rstrip_nospace)
    show ?thesis
    proof (cases "\<forall>c\<in>set rest. isspace c")
      case True
      then have "ws_words rest = []" by (simp add: ws_words_Nil_iff)
      moreover have "strip s = w"
        using True rw rstrip_append_space [of rest w]
        by (simp add: strip_def lstrip_def r_def [symmetric] r)
      moreover have "sub_spaces w = w"
        using sub_spaces_nospace_append [OF wns, of "[]"] by simp
      ultimately show ?thesis using ww by simp
    next
      case nall: False
      then have wr: "ws_words rest \<noteq> []" by (simp add: ws_words_Nil_iff)
      have st: "strip s = w @ rstrip rest"
        using nall rstrip_append_word [of rest w]
        by (simp add: strip_def lstrip_def r_def [symmetric] r)
      from nall obtain c cs where rc: "rest = c # cs" by (cases rest) auto
      have sp: "isspace c"
        using rc hd_dropWhile [of "\<lambda>c. \<not> isspace c" r] by (simp add: rest_def)
      have "sub_spaces (rstrip rest) = CHR '' '' # sub_spaces (dropWhile isspace (rstrip rest))"
      proof -
        have "rstrip rest = c # rstrip cs"
          using nall rc sp rstrip_append_word [of cs "[c]"] by auto
        then show ?thesis using sp by simp
      qed
      also have "dropWhile isspace (rstrip rest) = strip rest"
        by (simp add: dropWhile_rstrip strip_def lstrip_def)
      finally have "sub_spaces (strip s) = w @ CHR '' '' # join_space (ws_words rest)"
        using st IH wns by (simp add: sub_spaces_nospace_append)
      moreover obtain v vs where "ws_words rest = v # vs"
        using wr by (cases "ws_words rest") auto
      ultimately show ?thesis using ww by simp
    qed
  qed
qed

lemma ws_words_nonempty_nospace:
  "w \<in> set (ws_words s) \<Longrightarrow> w \<noteq> [] \<and> (\<forall>c\<in>set w. \<not> isspace c)"
proof (induction s rule: ws_words.induct)
  case (1 s)
  define r where "r = dropWhile isspace s"
  show ?case
  proof (cases "r = []")
    case True
    then have "ws_words s = []"
      by (subst ws_words.simps) (simp add: r_def)
    with "1.prems" show ?thesis by simp
  next
    case False
    have ww: "ws_words s = takeWhile (\<lambda>c. \<not> isspace c) r # ws_words (dropWhile (\<lambda>c. \<not> isspace c) r)"
      using False by (subst ws_words.simps) (simp add: r_def Let_def)
    from False obtain c cs where rc: "r = c # cs" by (cases r) auto
    have "\<not> isspace c"
      using rc hd_dropWhile [of isspace s] by (simp add: r_def)
    then have hd: "takeWhile (\<lambda>c. \<not> isspace c) r \<noteq> []" using rc by simp
    show ?thesis
    proof (cases "w = takeWhile (\<lambda>c. \<not> isspace c) r")
      case True
      then show ?thesis using hd by (auto dest: set_takeWhileD)
    next
      case False
      have "w \<in> set (takeWhile (\<lambda>c. \<not> isspace c) r # ws_words (dropWhile (\<lambda>c. \<not> isspace c) r))"
        using "1.prems" unfolding ww .
      with False have "w \<in> set (ws_words (dropWhile (\<lambda>c. \<not> isspace c) r))"
        by simp
      then show ?thesis by (rule "1.IH" [OF r_def \<open>r \<noteq> []\<close>])
    qed
  qed
qed

lemma filter_dropWhile_space:
  "filter (\<lambda>c. \<not> isspace c) (dropWhile isspace s) = filter (\<lambda>c. \<not> isspace c) s"
  by (induction s) auto

lemma concat_ws_words: "concat (ws_words s) = filter (\<lambda>c. \<not> isspace c) s"
proof (induction s rule: ws_words.induct)
  case (1 s)
  define r where "r = dropWhile isspace s"
  show ?case
  proof (cases "r = []")
    case True
    then have all: "\<forall>c\<in>set s. isspace c" by (simp add: r_def)
    then have "ws_words s = []" by (simp add: ws_words_Nil_iff)
    moreover have "filter (\<lambda>c. \<not> isspace c) s = []"
      using all by (simp add: filter_empty_conv)
    ultimately show ?thesis by simp
  next
    case False
    define w where "w = takeWhile (\<lambda>c. \<not> isspace c) r"
    define rest where "rest = dropWhile (\<lambda>c. \<not> isspace c) r"
    have ww: "ws_words s = w # ws_words rest"
      using False by (subst ws_words.simps) (simp add: r_def w_def rest_def Let_def)
    have IH: "concat (ws_words rest) = filter (\<lambda>c. \<not> isspace c) rest"
      using "1.IH" [OF r_def False] by (simp add: rest_def)
    have "filter (\<lambda>c. \<not> isspace c) w = w"
      unfolding w_def by (simp add: filter_id_conv) (auto dest: set_takeWhileD)
    moreover have "r = w @ rest" by (simp add: w_def rest_def)
    ultimately have "filter (\<lambda>c. \<not> isspace c) r = w @ filter (\<lambda>c. \<not> isspace c) rest"
      by (metis filter_append)
    then show ?thesis
      using ww IH filter_dropWhile_space [of s] by (simp add: r_def)
  qed
qed

section \<open>Properties of the analysis\<close>

lemma descendants_trans:
  "e \<in> set (descendants s) \<Longrightarrow> d \<in> set (descendants e) \<Longrightarrow> d \<in> set (descendants s)"
proof (induction s rule: descendants.induct)
  case (1 s)
  then show ?case by simp
next
  case (2 n a cs)
  from "2.prems"(1) obtain c where c: "c \<in> set cs" "e = c \<or> e \<in> set (descendants c)"
    by auto
  from c(2) have "d \<in> set (descendants c)"
  proof
    assume "e = c"
    with "2.prems"(2) show ?thesis by simp
  next
    assume "e \<in> set (descendants c)"
    then show ?thesis using "2.IH" [OF c(1)] "2.prems"(2) by simp
  qed
  with c(1) show ?case by auto
qed

lemma has_name_singleton:
  "has_name names d \<Longrightarrow> \<exists>n\<in>set names. has_name [n] d"
  by (cases d) (auto simp: has_name_def)

lemma detect_containers_mem:
  "(tag, element) \<in> set (detect_containers soup) \<longleftrightarrow>
     tag \<in> set container_tags \<and> element \<in> set (find_all [tag] soup) \<and> find_all content_tags element \<noteq> []"
  by (auto simp: detect_containers_def qualifying_def)

lemma detect_content_tag:
  "tag \<in> set content_tags \<Longrightarrow> find_all [tag] soup \<noteq> [] \<Longrightarrow>
     \<exists>info\<in>set (detect_content soup). info_tag info = tag \<and> info_count info = length (find_all [tag] soup)"
  unfolding detect_content_def
  by (cases "find_all [tag] soup") (auto intro!: bexI [of _ tag])

lemma detect_content_count:
  "info \<in> set (detect_content soup) \<Longrightarrow> 0 < info_count info"
  unfolding detect_content_def by (auto split: list.splits)

lemma analyze_structure_eq:
  "analyze_structure soup = (detect_containers soup, detect_content soup)"
proof -
  have "filter (\<lambda>info. info_count info > 0) (detect_content soup) = detect_content soup"
    by (simp add: filter_id_conv detect_content_count)
  then show ?thesis by (simp add: analyze_structure_def)
qed

lemma content_descendant_counted:
  assumes "(tag, element) \<in> set (detect_containers soup)"
    and "d \<in> set (find_all content_tags element)"
  shows "\<exists>info\<in>set (detect_content soup).
           info_tag info \<in> set content_tags \<and> d \<in> set (find_all [info_tag info] soup)"
proof -
  from assms(1) have e: "element \<in> set (descendants soup)"
    by (simp add: detect_containers_mem find_all_def)
  from assms(2) have d: "d \<in> set (descendants element)" "has_name content_tags d"
    by (simp_all add: find_all_def)
  from e d(1) have ds: "d \<in> set (descendants soup)" by (rule descendants_trans)
  from d(2) obtain n where n: "n \<in> set content_tags" "has_name [n] d"
    using has_name_singleton by blast
  with ds have mem: "d \<in> set (find_all [n] soup)" by (simp add: find_all_def)
  then have "find_all [n] soup \<noteq> []" by auto
  from detect_content_tag [OF n(1) this] obtain info
    where "info \<in> set (detect_content soup)" "info_tag info = n" by blast
  with n(1) mem show ?thesis by blast
qed

lemma first_qualifying_aux:
  "concat (map (\<lambda>tag. map (\<lambda>element. (tag, element)) (qualifying soup tag)) ts) \<noteq> [] \<Longrightarrow>
   List.find (\<lambda>t. qualifying soup t \<noteq> []) ts =
     Some (container_tag_of (concat (map (\<lambda>tag. map (\<lambda>element. (tag, element)) (qualifying soup tag)) ts)))"
proof (induction ts)
  case Nil
  then show ?case by simp
next
  case (Cons t ts)
  show ?case
  proof (cases "qualifying soup t")
    case Nil
    with Cons show ?thesis by simp
  next
    case (Cons e es)
    then show ?thesis by (simp add: container_tag_of_def)
  qed
qed

lemma first_qualifying:
  "detect_containers soup \<noteq> [] \<Longrightarrow>
   List.find (\<lambda>t. qualifying soup t \<noteq> []) container_tags = Some (container_tag_of (detect_containers soup))"
  unfolding detect_containers_def by (rule first_qualifying_aux)

section \<open>Properties of the page loop\<close>

text \<open>An invariant rule for the loop: what holds before it, and is kept by a fetch and by
  a scraped page, holds after it.\<close>

lemma page_loop_invariant:
  assumes run: "page_loop env cs ti sel base rng url st = (r, st')"
    and init: "I st"
    and fetch: "\<And>st u reqs. I st \<Longrightarrow> I (st\<lparr>requests := reqs, visited := visited st @ [u]\<rparr>)"
    and scrape: "\<And>st u soup data. I st \<Longrightarrow> scrape_page soup cs ti sel = Inr data \<Longrightarrow>
                  I (st\<lparr>all_data := all_data st @ data, pages := pages st @ [(u, soup, data)]\<rparr>)"
  shows "I st'"
  using run init
proof (induction rng arbitrary: url st)
  case Nil
  then show ?case by simp
next
  case (Cons p rng)
  obtain html reqs where f: "fetch_page (http_get env) url 3 (requests st) = (html, reqs)"
    by (cases "fetch_page (http_get env) url 3 (requests st)") auto
  define st1 where "st1 = st\<lparr>requests := reqs, visited := visited st @ [url]\<rparr>"
  have I1: "I st1" unfolding st1_def using Cons.prems(2) by (rule fetch)
  show ?case
  proof (cases html)
    case None
    then have "st' = st1" using Cons.prems(1) f by (simp add: st1_def)
    with I1 show ?thesis by simp
  next
    case (Some h)
    show ?thesis
    proof (cases "h = []")
      case True
      then have "st' = st1" using Cons.prems(1) f Some by (simp add: st1_def)
      with I1 show ?thesis by simp
    next
      case False
      define soup where "soup = html_parser env h"
      show ?thesis
      proof (cases "scrape_page soup cs ti sel")
        case (Inl e)
        then have "st' = st1"
          using Cons.prems(1) f Some False by (simp add: st1_def soup_def)
        with I1 show ?thesis by simp
      next
        case (Inr data)
        define st2 where "st2 = st1\<lparr>all_data := all_data st1 @ data,
                                      pages := pages st1 @ [(url, soup, data)]\<rparr>"
        have I2: "I st2" unfolding st2_def using I1 Inr by (rule scrape)
        show ?thesis
        proof (cases "get_next_page (urljoin env) soup base")
          case None
          then have "st' = st2"
            using Cons.prems(1) f Some False Inr
            by (simp add: st1_def st2_def soup_def [symmetric])
          with I2 show ?thesis by simp
        next
          case nx: (Some next_url)
          show ?thesis
          proof (cases "next_url = []")
            case True
            then have "st' = st2"
              using Cons.prems(1) f Some False Inr nx
              by (simp add: st1_def st2_def soup_def [symmetric])
            with I2 show ?thesis by simp
          next
            case nonempty: False
            then have "page_loop env cs ti sel base rng next_url st2 = (r, st')"
              using Cons.prems(1) f Some False Inr nx
              by (simp add: st1_def st2_def soup_def [symmetric])
            then show ?thesis using I2 by (rule Cons.IH)
          qed
        qed
      qed
    qed
  qed
qed

section \<open>Properties of the row extraction\<close>

lemma build_row_eq: "build_row article st row = Inr (row_of article st row)"
proof (induction st arbitrary: row)
  case Nil
  show ?case by (simp add: row_of_def)
next
  case (Cons p st)
  obtain tag col_name where p: "p = (tag, col_name)" by (cases p)
  show ?case
  proof (cases "find_first [tag] article")
    case None
    then show ?thesis
      using Cons [of "AList.update col_name (clean_text None) row"]
      by (simp add: p row_of_def field_text_def)
  next
    case (Some element)
    then show ?thesis
      using Cons [of "AList.update col_name (clean_text (Some (get_text element))) row"]
      by (simp add: p row_of_def field_text_def)
  qed
qed

lemma scrape_articles_eq:
  "scrape_articles articles st data = Inr (data @ map (\<lambda>article. row_of article st []) articles)"
  by (induction articles arbitrary: data) (simp_all add: build_row_eq)

lemma scrape_page_eq:
  "selected_tags tag_info sel = Inr st \<Longrightarrow>
   scrape_page soup containers tag_info sel =
     Inr (map (\<lambda>article. row_of article st []) (find_all [container_tag_of containers] soup))"
  by (simp add: scrape_page_def scrape_articles_eq)

lemma selected_tags_valid:
  "\<forall>i\<in>set sel. 1 \<le> i \<and> i \<le> int (length tag_info) \<Longrightarrow>
   selected_tags tag_info sel =
     Inr (map (\<lambda>i. (info_tag (tag_info ! nat (i - 1)), info_type (tag_info ! nat (i - 1)))) sel)"
  by (induction sel) (auto simp: py_index_def)

lemma map_of_row_of:
  assumes "\<forall>(t, c)\<in>set st. c = col \<longrightarrow> field_text article t = v"
    and "(\<exists>t. (t, col) \<in> set st) \<or> map_of row col = Some v"
  shows "map_of (row_of article st row) col = Some v"
  using assms
proof (induction st arbitrary: row)
  case Nil
  then show ?case by (simp add: row_of_def)
next
  case (Cons p st)
  obtain t c where p: "p = (t, c)" by (cases p)
  have step: "row_of article (p # st) row = row_of article st (AList.update c (field_text article t) row)"
    by (simp add: row_of_def p)
  have all: "\<forall>(t, c)\<in>set st. c = col \<longrightarrow> field_text article t = v"
    using Cons.prems(1) by simp
  have "(\<exists>t. (t, col) \<in> set st) \<or> map_of (AList.update c (field_text article t) row) col = Some v"
  proof (cases "c = col")
    case True
    then have "field_text article t = v" using Cons.prems(1) p by simp
    with True show ?thesis by (simp add: update_conv')
  next
    case False
    then show ?thesis using Cons.prems(2) p by (auto simp: update_conv')
  qed
  with all show ?case unfolding step by (rule Cons.IH)
qed

lemma field_text_missing: "find_first [tag] article = None \<Longrightarrow> field_text article tag = ''N/A''"
  by (simp add: field_text_def clean_text_def)


lemma detect_content_type:
  "info \<in> set (detect_content soup) \<Longrightarrow>
     info_tag info \<in> set content_tags \<and> info_type info = upper (info_tag info)"
  unfolding detect_content_def by (auto split: list.splits)

lemma upper_content_tags_inj:
  "t1 \<in> set content_tags \<Longrightarrow> t2 \<in> set content_tags \<Longrightarrow> upper t1 = upper t2 \<Longrightarrow> t1 = t2"
  by (auto simp: content_tags_def upper_def upper_char_def)

section \<open>The example site, evaluated\<close>

lemma example_analysis:
  "analyze_structure example_page1 =
     ([(''article'', Tag ''article'' [] [Tag ''h2'' [] [NavigableString ''First  post''],
                                         Tag ''p'' [] [NavigableString ''Hello'']]),
       (''article'', Tag ''article'' [] [Tag ''h2'' [] [NavigableString ''Second post'']])],
      [\<lparr>info_type = ''H2'', info_tag = ''h2'', info_count = 2, info_sample = ''First post''\<rparr>,
       \<lparr>info_type = ''P'', info_tag = ''p'', info_count = 1, info_sample = ''Hello''\<rparr>])"
  by code_simp

lemma example_articles:
  "find_all [''article''] example_page1 =
     [Tag ''article'' [] [Tag ''h2'' [] [NavigableString ''First  post''],
                          Tag ''p'' [] [NavigableString ''Hello'']],
      Tag ''article'' [] [Tag ''h2'' [] [NavigableString ''Second post'']]]"
  by code_simp

lemma example_scrape:
  "scrape_page example_page1 (fst (analyze_structure example_page1))
      (snd (analyze_structure example_page1)) [1, 2] =
     Inr [[(''H2'', ''First post''), (''P'', ''Hello'')],
          [(''H2'', ''Second post''), (''P'', ''N/A'')]]"
  by code_simp

section \<open>The claims\<close>

text \<open>
  C2. For every input text, \<open>clean_text\<close> returns the words of the text (its maximal
  runs of non-whitespace characters, none empty, together all the non-whitespace
  characters of the text in order) joined by single spaces, so every run of whitespace
  inside has become one space and none is left at either end; for \<open>None\<close>, for the
  empty string and for a string of whitespace only it returns \<open>N/A\<close>; it never returns
  the empty string.
\<close>

theorem clean_text_collapses_whitespace:
  "clean_text None = ''N/A''
   \<and> clean_text (Some []) = ''N/A''
   \<and> clean_text (Some s) \<noteq> []
   \<and> clean_text (Some s) =
       (if \<forall>c\<in>set s. isspace c then ''N/A'' else join_space (ws_words s))
   \<and> (\<forall>w\<in>set (ws_words s). w \<noteq> [] \<and> (\<forall>c\<in>set w. \<not> isspace c))
   \<and> concat (ws_words s) = filter (\<lambda>c. \<not> isspace c) s"
proof -
  have ne: "clean_text (Some s) \<noteq> []"
    by (simp add: clean_text_def Let_def)
  have eq: "clean_text (Some s) =
       (if \<forall>c\<in>set s. isspace c then ''N/A'' else join_space (ws_words s))"
  proof (cases "\<forall>c\<in>set s. isspace c")
    case True
    then show ?thesis
      by (simp add: clean_text_def Let_def strip_all_space)
  next
    case False
    then have "ws_words s \<noteq> []" by (simp add: ws_words_Nil_iff)
    then obtain w ws where w: "ws_words s = w # ws" by (cases "ws_words s") auto
    then have "w \<noteq> []" using ws_words_nonempty_nospace [of w s] by simp
    then have "join_space (ws_words s) \<noteq> []" using w by (cases ws) auto
    moreover have "s \<noteq> []" using False by auto
    ultimately have "clean_text (Some s) = join_space (ws_words s)"
      by (simp add: clean_text_def Let_def sub_spaces_strip)
    then show ?thesis by (subst if_not_P [OF False])
  qed
  have nn: "clean_text None = ''N/A''" "clean_text (Some []) = ''N/A''"
    by (simp_all add: clean_text_def)
  have wd: "\<forall>w\<in>set (ws_words s). w \<noteq> [] \<and> (\<forall>c\<in>set w. \<not> isspace c)"
    using ws_words_nonempty_nospace [of _ s] by blast
  show ?thesis
    using nn ne eq wd concat_ws_words [of s] by (intro conjI) assumption+
qed

theorem clean_text_collapses_whitespace_witness:
  "clean_text (Some '' two   words '') = ''two words''
   \<and> ws_words '' two   words '' = [''two'', ''words'']"
proof -
  have w: "ws_words '' two   words '' = [''two'', ''words'']"
    by code_simp
  have n: "\<not> (\<forall>c\<in>set '' two   words ''. isspace c)"
    by (simp add: isspace_def)
  have "clean_text (Some '' two   words '') = join_space (ws_words '' two   words '')"
    using clean_text_collapses_whitespace [of "'' two   words ''"] n by presburger
  then show ?thesis using w by simp
qed

text \<open>
  C9. For every document, if \<open>analyze_structure\<close> returns a container list that is not
  empty, the content-type list it returns is not empty either; indeed every
  content-tag descendant of a container it returns is among the elements counted by
  one of the content types it returns.
\<close>

theorem containers_imply_content_types:
  "(fst (analyze_structure soup) \<noteq> [] \<longrightarrow> snd (analyze_structure soup) \<noteq> [])
   \<and> (\<forall>(tag, element)\<in>set (fst (analyze_structure soup)).
        \<forall>d\<in>set (find_all content_tags element).
          \<exists>info\<in>set (snd (analyze_structure soup)).
            info_tag info \<in> set content_tags \<and> d \<in> set (find_all [info_tag info] soup))"
proof (intro conjI impI)
  assume "fst (analyze_structure soup) \<noteq> []"
  then obtain tag element where te: "(tag, element) \<in> set (detect_containers soup)"
    by (cases "detect_containers soup") (auto simp: analyze_structure_eq)
  then have "find_all content_tags element \<noteq> []"
    by (simp add: detect_containers_mem)
  then obtain d where "d \<in> set (find_all content_tags element)"
    by (cases "find_all content_tags element") auto
  from content_descendant_counted [OF te this]
  show "snd (analyze_structure soup) \<noteq> []"
    by (auto simp: analyze_structure_eq)
next
  show "\<forall>(tag, element)\<in>set (fst (analyze_structure soup)).
        \<forall>d\<in>set (find_all content_tags element).
          \<exists>info\<in>set (snd (analyze_structure soup)).
            info_tag info \<in> set content_tags \<and> d \<in> set (find_all [info_tag info] soup)"
    using content_descendant_counted [of _ _ soup] by (auto simp: analyze_structure_eq)
qed

theorem containers_imply_content_types_witness:
  "map fst (fst (analyze_structure example_page1)) = [''article'', ''article'']
   \<and> map info_tag (snd (analyze_structure example_page1)) = [''h2'', ''p'']"
  using containers_imply_content_types [of example_page1] by (simp add: example_analysis)

text \<open>
  C4. Take the content types of any analysed page, a selection of valid indices, and
  the \<open>k\<close>-th container of a page. If that container has no descendant of a selected
  content tag, \<open>scrape_page\<close> still returns one row per container, and the \<open>k\<close>-th
  row holds \<open>N/A\<close> in the column of that content type; nothing is raised and no row
  is left out.
\<close>

theorem missing_descendant_gives_sentinel:
  assumes ti: "tag_info = snd (analyze_structure page1)"
    and ar: "articles = find_all [container_tag_of containers] soup"
    and valid: "\<forall>i\<in>set sel. 1 \<le> i \<and> i \<le> int (length tag_info)"
    and k: "k < length articles"
    and i: "i \<in> set sel"
    and missing: "find_first [info_tag (tag_info ! nat (i - 1))] (articles ! k) = None"
  shows "\<exists>data. scrape_page soup containers tag_info sel = Inr data
           \<and> length data = length articles
           \<and> map_of (data ! k) (info_type (tag_info ! nat (i - 1))) = Some ''N/A''"
proof -
  define st where "st = map (\<lambda>i. (info_tag (tag_info ! nat (i - 1)), info_type (tag_info ! nat (i - 1)))) sel"
  define data where "data = map (\<lambda>article. row_of article st []) articles"
  have sp: "scrape_page soup containers tag_info sel = Inr data"
    unfolding data_def ar st_def
    using selected_tags_valid [OF valid] by (rule scrape_page_eq)
  have mem: "tag_info ! nat (j - 1) \<in> set (detect_content page1)" if "j \<in> set sel" for j
  proof -
    from that valid have "nat (j - 1) < length tag_info" by auto
    then have "tag_info ! nat (j - 1) \<in> set tag_info" by (rule nth_mem)
    then show ?thesis by (simp add: ti analyze_structure_eq)
  qed
  let ?t = "info_tag (tag_info ! nat (i - 1))" and ?c = "info_type (tag_info ! nat (i - 1))"
  have same: "\<forall>(t, c)\<in>set st. c = ?c \<longrightarrow> field_text (articles ! k) t = ''N/A''"
  proof (clarify)
    fix t c assume "(t, ?c) \<in> set st"
    then obtain j where j: "j \<in> set sel" "t = info_tag (tag_info ! nat (j - 1))"
      "?c = info_type (tag_info ! nat (j - 1))"
      by (auto simp: st_def)
    have "upper t = upper ?t"
      using detect_content_type [OF mem [OF j(1)]] detect_content_type [OF mem [OF i]] j by simp
    then have "t = ?t"
      using detect_content_type [OF mem [OF j(1)]] detect_content_type [OF mem [OF i]] j(2)
      by (auto intro: upper_content_tags_inj)
    then show "field_text (articles ! k) t = ''N/A''"
      using missing by (simp add: field_text_missing)
  qed
  have "(?t, ?c) \<in> set st" using i by (auto simp: st_def)
  then have "(\<exists>t. (t, ?c) \<in> set st) \<or> map_of [] ?c = Some ''N/A''" by blast
  with same have "map_of (row_of (articles ! k) st []) ?c = Some ''N/A''"
    by (rule map_of_row_of)
  then have "map_of (data ! k) ?c = Some ''N/A''" using k by (simp add: data_def)
  moreover have "length data = length articles" by (simp add: data_def)
  ultimately show ?thesis using sp by blast
qed

theorem missing_descendant_gives_sentinel_witness:
  "find_first [''p''] (find_all [''article''] example_page1 ! 1) = None
   \<and> scrape_page example_page1 (fst (analyze_structure example_page1))
        (snd (analyze_structure example_page1)) [1, 2] =
       Inr [[(''H2'', ''First post''), (''P'', ''Hello'')],
            [(''H2'', ''Second post''), (''P'', ''N/A'')]]"
proof -
  let ?ti = "snd (analyze_structure example_page1)"
  let ?cs = "fst (analyze_structure example_page1)"
  have ar: "find_all [''article''] example_page1 = find_all [container_tag_of ?cs] example_page1"
    by (simp add: example_analysis container_tag_of_def)
  have valid: "\<forall>i\<in>set [1, 2]. 1 \<le> i \<and> i \<le> int (length ?ti)"
    by (simp add: example_analysis)
  have k: "1 < length (find_all [''article''] example_page1)"
    by (simp add: example_articles)
  have i: "(2::int) \<in> set [1, 2]" by simp
  have missing: "find_first [''p''] (find_all [''article''] example_page1 ! 1) = None"
    by code_simp
  then have missing': "find_first [info_tag (?ti ! nat (2 - 1))] (find_all [''article''] example_page1 ! 1) = None"
    by (simp add: example_analysis)
  from missing_descendant_gives_sentinel [OF refl ar valid k i missing']
  obtain data where "scrape_page example_page1 ?cs ?ti [1, 2] = Inr data"
    and "map_of (data ! 1) (info_type (?ti ! nat (2 - 1))) = Some ''N/A''"
    by blast
  then have "scrape_page example_page1 ?cs ?ti [1, 2] =
       Inr [[(''H2'', ''First post''), (''P'', ''Hello'')],
            [(''H2'', ''Second post''), (''P'', ''N/A'')]]"
    by (simp add: example_scrape)
  with missing show ?thesis by (rule conjI)
qed

text \<open>
  C10. Building the row of a container never raises, whatever the container and the
  selected tags, so the branch of \<open>scrape_page\<close> that skips a container is never taken:
  the loop over the containers appends one row for each of them, and with valid
  indices \<open>scrape_page\<close> returns as many records as the page has elements of the
  container tag.
\<close>

theorem row_building_never_raises:
  "(\<exists>built. build_row article st row = Inr built)
   \<and> (\<exists>data'. scrape_articles articles st data = Inr data'
          \<and> length data' = length data + length articles)
   \<and> ((\<forall>i\<in>set sel. 1 \<le> i \<and> i \<le> int (length tag_info)) \<longrightarrow>
        (\<exists>page_data. scrape_page soup containers tag_info sel = Inr page_data
           \<and> length page_data = length (find_all [container_tag_of containers] soup)))"
proof (intro conjI impI)
  show "\<exists>built. build_row article st row = Inr built"
    by (simp add: build_row_eq)
  show "\<exists>data'. scrape_articles articles st data = Inr data'
          \<and> length data' = length data + length articles"
    by (simp add: scrape_articles_eq)
next
  assume "\<forall>i\<in>set sel. 1 \<le> i \<and> i \<le> int (length tag_info)"
  then show "\<exists>page_data. scrape_page soup containers tag_info sel = Inr page_data
           \<and> length page_data = length (find_all [container_tag_of containers] soup)"
    using scrape_page_eq [OF selected_tags_valid] by simp
qed

theorem row_building_never_raises_witness:
  "scrape_page example_page1 (fst (analyze_structure example_page1))
      (snd (analyze_structure example_page1)) [1, 2] =
     Inr [[(''H2'', ''First post''), (''P'', ''Hello'')],
          [(''H2'', ''Second post''), (''P'', ''N/A'')]]
   \<and> length (find_all [container_tag_of (fst (analyze_structure example_page1))] example_page1) = 2"
proof -
  let ?ti = "snd (analyze_structure example_page1)"
  let ?cs = "fst (analyze_structure example_page1)"
  have valid: "\<forall>i\<in>set [1, 2]. 1 \<le> i \<and> i \<le> int (length ?ti)"
    by (simp add: example_analysis)
  from row_building_never_raises [of example_page1 "[]" "[]" "[]" "[]" "[1, 2]" ?ti example_page1 ?cs]
  have "(\<forall>i\<in>set [1, 2]. 1 \<le> i \<and> i \<le> int (length ?ti)) \<longrightarrow>
        (\<exists>page_data. scrape_page example_page1 ?cs ?ti [1, 2] = Inr page_data
           \<and> length page_data = length (find_all [container_tag_of ?cs] example_page1))"
    by blast
  with valid obtain page_data where pd: "scrape_page example_page1 ?cs ?ti [1, 2] = Inr page_data"
    and len: "length page_data = length (find_all [container_tag_of ?cs] example_page1)"
    by blast
  from pd have "page_data = [[(''H2'', ''First post''), (''P'', ''Hello'')],
                             [(''H2'', ''Second post''), (''P'', ''N/A'')]]"
    by (simp add: example_scrape)
  then have "length page_data = 2" by simp
  with len have "length (find_all [container_tag_of ?cs] example_page1) = 2"
    by simp
  with example_scrape show ?thesis by (rule conjI)
qed

end
